theory Spec2Isabelle
  imports Main "HOL-Library.Sublist"
begin

section \<open>The zatt client (\<open>zatt/client/distributedDict.py\<close>)\<close>

text \<open>
  The client talks to a cluster through single-shot request/response round-trips, follows
  leader redirects, retries appends a bounded number of times and keeps a local copy of
  the remote dictionary that is refreshed according to a policy.

  The model is a shallow embedding with explicit state. The objects of the program are
  records, the Python values that travel over the wire are a datatype, every exception
  is a value, and the three things the program reads from outside (the peers' answers,
  the wall clock, the random generator) are oracles collected in an environment.
\<close>

subsection \<open>Python values\<close>

text \<open>
  The values msgpack produces and consumes, and the tuples the client builds itself.
  Floating-point numbers are left out: no operation of the client looks at one.
  Dictionary keys are the hashable scalars. A dictionary is kept as an association list
  in insertion order.
\<close>

datatype key = KNone | KBool bool | KInt int | KStr string | KBytes string

datatype val =
    VNone
  | VBool bool
  | VInt int
  | VStr string
  | VBytes string
  | VList "val list"
  | VTuple "val list"
  | VMap "(key \<times> val) list"

datatype exn =
    KeyError
  | TypeError
  | IndexError
  | AttributeError
  | UnboundLocalError
  | RecursionError
  | TransportError string

type_synonym address = "val list"

fun val_of_key :: "key \<Rightarrow> val" where
  "val_of_key KNone = VNone"
| "val_of_key (KBool b) = VBool b"
| "val_of_key (KInt i) = VInt i"
| "val_of_key (KStr s) = VStr s"
| "val_of_key (KBytes s) = VBytes s"

text \<open>
  Python's \<open>True == 1\<close> and \<open>False == 0\<close>, with equal hashes: as dictionary keys a
  boolean and the integer of the same value are one key.
\<close>

fun norm_key :: "key \<Rightarrow> key" where
  "norm_key (KBool b) = KInt (if b then 1 else 0)"
| "norm_key k = k"

definition key_eq :: "key \<Rightarrow> key \<Rightarrow> bool" where
  "key_eq k k' = (norm_key k = norm_key k')"

fun lookup :: "(key \<times> val) list \<Rightarrow> key \<Rightarrow> val option" where
  "lookup [] k = None"
| "lookup ((k', v) # m) k = (if key_eq k' k then Some v else lookup m k)"

definition remove :: "(key \<times> val) list \<Rightarrow> key \<Rightarrow> (key \<times> val) list" where
  "remove m k = filter (\<lambda>(k', v). \<not> key_eq k' k) m"

text \<open>The integer a key stands for when it is used as a sequence index.\<close>

fun index_of_key :: "key \<Rightarrow> int option" where
  "index_of_key (KInt i) = Some i"
| "index_of_key (KBool b) = Some (if b then 1 else 0)"
| "index_of_key k = None"

text \<open>
  The position that index \<open>i\<close> denotes in a sequence of \<open>len\<close> elements; an index
  below zero is taken from the end. \<open>seq[i]\<close> raises IndexError when there is none.
\<close>

definition seq_pos :: "nat \<Rightarrow> int \<Rightarrow> nat option" where
  "seq_pos len i =
     (if 0 \<le> i \<and> i < int len then Some (nat i)
      else if i < 0 \<and> - int len \<le> i then Some (nat (int len + i))
      else None)"

definition seq_index :: "'a list \<Rightarrow> int \<Rightarrow> exn + 'a" where
  "seq_index xs i =
     (case seq_pos (length xs) i of None \<Rightarrow> Inl IndexError | Some p \<Rightarrow> Inr (xs ! p))"

definition seq_getitem :: "'a list \<Rightarrow> key \<Rightarrow> exn + 'a" where
  "seq_getitem xs k =
     (case index_of_key k of None \<Rightarrow> Inl TypeError | Some i \<Rightarrow> seq_index xs i)"

text \<open>\<open>obj[key]\<close>\<close>

fun getitem_val :: "val \<Rightarrow> key \<Rightarrow> exn + val" where
  "getitem_val (VMap m) k = (case lookup m k of None \<Rightarrow> Inl KeyError | Some v \<Rightarrow> Inr v)"
| "getitem_val (VList xs) k = seq_getitem xs k"
| "getitem_val (VTuple xs) k = seq_getitem xs k"
| "getitem_val (VStr s) k = map_sum id (\<lambda>c. VStr [c]) (seq_getitem s k)"
| "getitem_val (VBytes s) k = map_sum id (\<lambda>c. VInt (int (of_char c))) (seq_getitem s k)"
| "getitem_val v k = Inl TypeError"

text \<open>\<open>del obj[key]\<close>: the object after the deletion.\<close>

fun delitem_val :: "val \<Rightarrow> key \<Rightarrow> exn + val" where
  "delitem_val (VMap m) k =
     (case lookup m k of None \<Rightarrow> Inl KeyError | Some v \<Rightarrow> Inr (VMap (remove m k)))"
| "delitem_val (VList xs) k =
     (case index_of_key k of
        None \<Rightarrow> Inl TypeError
      | Some i \<Rightarrow>
          (case seq_pos (length xs) i of
             None \<Rightarrow> Inl IndexError
           | Some p \<Rightarrow> Inr (VList (take p xs @ drop (Suc p) xs))))"
| "delitem_val v k = Inl TypeError"

text \<open>\<open>tuple(obj)\<close>\<close>

fun tuple_of :: "val \<Rightarrow> exn + val list" where
  "tuple_of (VList xs) = Inr xs"
| "tuple_of (VTuple xs) = Inr xs"
| "tuple_of (VStr s) = Inr (map (\<lambda>c. VStr [c]) s)"
| "tuple_of (VBytes s) = Inr (map (\<lambda>c. VInt (int (of_char c))) s)"
| "tuple_of (VMap m) = Inr (map (\<lambda>(k, v). val_of_key k) m)"
| "tuple_of v = Inl TypeError"

text \<open>\<open>random.choice(obj)\<close> is \<open>obj[randbelow(len(obj))]\<close>; \<open>r\<close> is the generator's draw.\<close>

fun choice :: "nat \<Rightarrow> val \<Rightarrow> exn + val" where
  "choice r (VList xs) = (if xs = [] then Inl IndexError else Inr (xs ! (r mod length xs)))"
| "choice r (VTuple xs) = (if xs = [] then Inl IndexError else Inr (xs ! (r mod length xs)))"
| "choice r (VStr s) = (if s = [] then Inl IndexError else Inr (VStr [s ! (r mod length s)]))"
| "choice r (VBytes s) =
     (if s = [] then Inl IndexError else Inr (VInt (int (of_char (s ! (r mod length s))))))"
| "choice r (VMap m) =
     (if m = [] then Inl IndexError else getitem_val (VMap m) (KInt (int (r mod length m))))"
| "choice r v = Inl TypeError"

text \<open>The truth value of an object in a condition.\<close>

fun truthy :: "val \<Rightarrow> bool" where
  "truthy VNone = False"
| "truthy (VBool b) = b"
| "truthy (VInt i) = (i \<noteq> 0)"
| "truthy (VStr s) = (s \<noteq> [])"
| "truthy (VBytes s) = (s \<noteq> [])"
| "truthy (VList xs) = (xs \<noteq> [])"
| "truthy (VTuple xs) = (xs \<noteq> [])"
| "truthy (VMap m) = (m \<noteq> [])"

text \<open>
  The test \<open>'type' in resp and resp['type'] == 'redirect'\<close> of \<open>_request\<close>. On a
  dictionary \<open>in\<close> looks for the key; on a list or tuple it looks for an equal element and
  on a string for a substring, and then the subscript with a string raises; on anything
  else \<open>in\<close> itself raises.
\<close>

fun is_redirect :: "val \<Rightarrow> exn + bool" where
  "is_redirect (VMap m) =
     (case lookup m (KStr ''type'') of None \<Rightarrow> Inr False | Some t \<Rightarrow> Inr (t = VStr ''redirect''))"
| "is_redirect (VList xs) = (if VStr ''type'' \<in> set xs then Inl TypeError else Inr False)"
| "is_redirect (VTuple xs) = (if VStr ''type'' \<in> set xs then Inl TypeError else Inr False)"
| "is_redirect (VStr s) = (if sublist ''type'' s then Inl TypeError else Inr False)"
| "is_redirect v = Inl TypeError"

subsection \<open>The environment and the state\<close>

text \<open>
  \<open>transport\<close> is one round-trip of \<open>_request\<close> up to the decoded response: connect to the
  address, send the packed message, read until the peer closes, unpack. It may depend on
  everything this client has sent before, and it fails with the exception that the
  socket or the decoder raises. \<open>now\<close> is the sequence of readings of
  \<open>datetime.datetime.now()\<close>, in microseconds; \<open>randbelow\<close> the sequence of draws of the
  random generator. A peer that never closes the connection is not modelled.

  \<open>recursion_room\<close> is what the interpreter's recursion limit leaves to \<open>_request\<close>: the
  number of calls of \<open>_request\<close> that may be nested inside the outermost one (the limit is
  1000 frames unless it was changed, less the frames of the callers). The nested call
  after that raises RecursionError.
\<close>

record env =
  transport :: "(address \<times> val) list \<Rightarrow> address \<Rightarrow> val \<Rightarrow> exn + val"
  now :: "nat \<Rightarrow> int"
  randbelow :: "nat \<Rightarrow> nat"
  recursion_room :: nat

record world =
  sent :: "(address \<times> val) list"
  ticks :: nat
  draws :: nat

subsection \<open>Refresh policies\<close>

datatype policy =
    RefreshPolicyAlways
  | RefreshPolicyLock (lock: bool)
  | RefreshPolicyCount (counter: int) (maximum: int)
  | RefreshPolicyTime (delta: int) (last_refresh: "int option")

text \<open>
  The constructors. \<open>RefreshPolicyTime.__init__\<close> calls its argument
  (\<open>self.delta = delta()\<close>): the argument is either a \<open>timedelta\<close> value, which is not
  callable, or a callable of no arguments that returns one. Its default is the value
  \<open>datetime.timedelta(minutes=1)\<close>.
\<close>

datatype delta_arg = Timedelta int | Thunk int

definition RefreshPolicyLock_init :: "bool \<Rightarrow> exn + policy" where
  "RefreshPolicyLock_init status = Inr (RefreshPolicyLock status)"

definition RefreshPolicyCount_init :: "int \<Rightarrow> exn + policy" where
  "RefreshPolicyCount_init maxi = Inr (RefreshPolicyCount 0 maxi)"

fun RefreshPolicyTime_init :: "delta_arg \<Rightarrow> exn + policy" where
  "RefreshPolicyTime_init (Timedelta d) = Inl TypeError"
| "RefreshPolicyTime_init (Thunk d) = Inr (RefreshPolicyTime d None)"

definition RefreshPolicyTime_default :: "exn + policy" where
  "RefreshPolicyTime_default = RefreshPolicyTime_init (Timedelta (60 * 1000000))"

text \<open>\<open>can_update\<close>: the decision, the policy object afterwards, the world afterwards.\<close>

fun can_update :: "env \<Rightarrow> policy \<Rightarrow> world \<Rightarrow> bool \<times> policy \<times> world" where
  "can_update e RefreshPolicyAlways w = (True, RefreshPolicyAlways, w)"
| "can_update e (RefreshPolicyLock b) w = (b, RefreshPolicyLock b, w)"
| "can_update e (RefreshPolicyCount c m) w =
     (if c + 1 = m then (True, RefreshPolicyCount 0 m, w)
      else (False, RefreshPolicyCount (c + 1) m, w))"
| "can_update e (RefreshPolicyTime d None) w =
     (True, RefreshPolicyTime d (Some (now e (ticks w))), w\<lparr>ticks := ticks w + 1\<rparr>)"
| "can_update e (RefreshPolicyTime d (Some l)) w =
     (if now e (ticks w) - l > d
      then (True, RefreshPolicyTime d (Some (now e (ticks w + 1))), w\<lparr>ticks := ticks w + 2\<rparr>)
      else (False, RefreshPolicyTime d (Some l), w\<lparr>ticks := ticks w + 1\<rparr>))"

subsection \<open>The client\<close>

record client =
  server_address :: "address option"
  data :: val
  append_retry_attempts :: int
  refresh_policy :: policy

text \<open>
  An operation returns its value or the exception it raised, together with the object and
  the world as they are at that moment: what was assigned before an exception stays
  assigned. \<open>None\<close> stands for a call that does not return; since the transport always
  answers and the interpreter bounds the nesting of \<open>_request\<close>, every operation below
  returns.
\<close>

type_synonym 'a result = "((exn + 'a) \<times> client \<times> world) option"

text \<open>
  \<open>AbstractClient._request\<close>. \<open>request_within d\<close> is a call that may still hold \<open>d\<close> nested
  calls. On a redirect the new address is assigned first; then the method calls itself,
  and that call raises RecursionError when no nested call is left. The method itself
  counts nothing. \<open>request\<close> is the outermost call.
\<close>

fun request_within :: "nat \<Rightarrow> env \<Rightarrow> val \<Rightarrow> client \<times> world \<Rightarrow> ((exn + val) \<times> client \<times> world) option" where
  "request_within d e message cw =
     (case server_address (fst cw) of
        None \<Rightarrow> Some (Inl AttributeError, cw)
      | Some a \<Rightarrow>
          (case transport e (sent (snd cw)) a message of
             Inl x \<Rightarrow> Some (Inl x, fst cw, (snd cw)\<lparr>sent := sent (snd cw) @ [(a, message)]\<rparr>)
           | Inr resp \<Rightarrow>
               (case is_redirect resp of
                  Inl x \<Rightarrow> Some (Inl x, fst cw, (snd cw)\<lparr>sent := sent (snd cw) @ [(a, message)]\<rparr>)
                | Inr b \<Rightarrow>
                    if b then
                      (case getitem_val resp (KStr ''leader'') of
                         Inl x \<Rightarrow>
                           Some (Inl x, fst cw, (snd cw)\<lparr>sent := sent (snd cw) @ [(a, message)]\<rparr>)
                       | Inr l \<Rightarrow>
                           (case tuple_of l of
                              Inl x \<Rightarrow>
                                Some (Inl x, fst cw,
                                      (snd cw)\<lparr>sent := sent (snd cw) @ [(a, message)]\<rparr>)
                            | Inr t \<Rightarrow>
                                (case d of
                                   0 \<Rightarrow>
                                     Some (Inl RecursionError,
                                           (fst cw)\<lparr>server_address := Some t\<rparr>,
                                           (snd cw)\<lparr>sent := sent (snd cw) @ [(a, message)]\<rparr>)
                                 | Suc d' \<Rightarrow>
                                     request_within d' e message
                                       ((fst cw)\<lparr>server_address := Some t\<rparr>,
                                        (snd cw)\<lparr>sent := sent (snd cw) @ [(a, message)]\<rparr>))))
                    else Some (Inr resp, fst cw,
                               (snd cw)\<lparr>sent := sent (snd cw) @ [(a, message)]\<rparr>))))"

declare request_within.simps [simp del]

definition request :: "env \<Rightarrow> val \<Rightarrow> client \<times> world \<Rightarrow> val result" where
  "request e message cw = request_within (recursion_room e) e message cw"

text \<open>The messages the client sends.\<close>

definition get_msg :: val where
  "get_msg = VMap [(KStr ''type'', VStr ''get'')]"

definition append_msg :: "val \<Rightarrow> val" where
  "append_msg payload = VMap [(KStr ''type'', VStr ''append''), (KStr ''data'', payload)]"

definition diagnostic_msg :: val where
  "diagnostic_msg = VMap [(KStr ''type'', VStr ''diagnostic'')]"

definition config_msg :: "val \<Rightarrow> val \<Rightarrow> val \<Rightarrow> val" where
  "config_msg action addr port =
     VMap [(KStr ''type'', VStr ''config''), (KStr ''action'', action),
           (KStr ''address'', addr), (KStr ''port'', port)]"

definition change_payload :: "key \<Rightarrow> val \<Rightarrow> val" where
  "change_payload k v =
     VMap [(KStr ''action'', VStr ''change''), (KStr ''key'', val_of_key k), (KStr ''value'', v)]"

definition delete_payload :: "key \<Rightarrow> val" where
  "delete_payload k = VMap [(KStr ''action'', VStr ''delete''), (KStr ''key'', val_of_key k)]"

text \<open>
  \<open>AbstractClient._get_state\<close>: the contact is drawn from what the dictionary holds under
  \<open>'cluster'\<close>, and is assigned before the request is made.
\<close>

fun get_state :: "env \<Rightarrow> client \<times> world \<Rightarrow> val result" where
  "get_state e (c, w) =
     (case getitem_val (data c) (KStr ''cluster'') of
        Inl x \<Rightarrow> Some (Inl x, c, w)
      | Inr members \<Rightarrow>
          (case choice (randbelow e (draws w)) members of
             Inl x \<Rightarrow> Some (Inl x, c, w)
           | Inr member \<Rightarrow>
               (case tuple_of member of
                  Inl x \<Rightarrow> Some (Inl x, c, w\<lparr>draws := draws w + 1\<rparr>)
                | Inr t \<Rightarrow>
                    request e get_msg
                      (c\<lparr>server_address := Some t\<rparr>, w\<lparr>draws := draws w + 1\<rparr>))))"

text \<open>\<open>AbstractClient._append_log\<close>, \<open>diagnostic\<close> and \<open>config_cluster\<close>.\<close>

definition append_log :: "env \<Rightarrow> val \<Rightarrow> client \<times> world \<Rightarrow> val result" where
  "append_log e payload cw = request e (append_msg payload) cw"

definition diagnostic :: "env \<Rightarrow> client \<times> world \<Rightarrow> val result" where
  "diagnostic e cw = request e diagnostic_msg cw"

definition config_cluster :: "env \<Rightarrow> val \<Rightarrow> val \<Rightarrow> val \<Rightarrow> client \<times> world \<Rightarrow> val result" where
  "config_cluster e action addr port cw = request e (config_msg action addr port) cw"

text \<open>
  \<open>DistributedDict._append_log\<close>: the loop over \<open>range(self.append_retry_attempts)\<close>.
  \<open>retry_loop\<close> is the loop with \<open>k\<close> iterations left; \<open>prev\<close> is the variable
  \<open>response\<close>, unbound (\<open>None\<close>) until the first iteration has assigned it.
\<close>

fun retry_loop :: "env \<Rightarrow> val \<Rightarrow> nat \<Rightarrow> val option \<Rightarrow> client \<times> world \<Rightarrow> val result" where
  "retry_loop e payload 0 prev cw =
     (case prev of None \<Rightarrow> Some (Inl UnboundLocalError, cw) | Some r \<Rightarrow> Some (Inr r, cw))"
| "retry_loop e payload (Suc k) prev cw =
     (case append_log e payload cw of
        None \<Rightarrow> None
      | Some (Inl x, cw') \<Rightarrow> Some (Inl x, cw')
      | Some (Inr response, cw') \<Rightarrow>
          (case getitem_val response (KStr ''success'') of
             Inl x \<Rightarrow> Some (Inl x, cw')
           | Inr s \<Rightarrow>
               if truthy s then Some (Inr response, cw')
               else retry_loop e payload k (Some response) cw'))"

fun append_log_retry :: "env \<Rightarrow> val \<Rightarrow> client \<times> world \<Rightarrow> val result" where
  "append_log_retry e payload (c, w) =
     retry_loop e payload (nat (append_retry_attempts c)) None (c, w)"

text \<open>
  \<open>DistributedDict.refresh\<close>. With \<open>force\<close> the policy is not asked (\<open>or\<close> does not
  evaluate its second operand). The dictionary is replaced only when \<open>_get_state\<close>
  returns.
\<close>

definition fetch :: "env \<Rightarrow> client \<times> world \<Rightarrow> unit result" where
  "fetch e cw =
     (case get_state e cw of
        None \<Rightarrow> None
      | Some (Inl x, cw') \<Rightarrow> Some (Inl x, cw')
      | Some (Inr s, c', w') \<Rightarrow> Some (Inr (), c'\<lparr>data := s\<rparr>, w'))"

fun refresh :: "env \<Rightarrow> bool \<Rightarrow> client \<times> world \<Rightarrow> unit result" where
  "refresh e force (c, w) =
     (if force then fetch e (c, w)
      else
        (case can_update e (refresh_policy c) w of
           (b, p', w') \<Rightarrow>
             if b then fetch e (c\<lparr>refresh_policy := p'\<rparr>, w')
             else Some (Inr (), c\<lparr>refresh_policy := p'\<rparr>, w')))"

text \<open>\<open>__getitem__\<close>, \<open>__setitem__\<close> and \<open>__delitem__\<close>.\<close>

definition getitem :: "env \<Rightarrow> key \<Rightarrow> client \<times> world \<Rightarrow> val result" where
  "getitem e k cw =
     (case refresh e False cw of
        None \<Rightarrow> None
      | Some (Inl x, cw') \<Rightarrow> Some (Inl x, cw')
      | Some (Inr u, c', w') \<Rightarrow> Some (getitem_val (data c') k, c', w'))"

definition setitem :: "env \<Rightarrow> key \<Rightarrow> val \<Rightarrow> client \<times> world \<Rightarrow> unit result" where
  "setitem e k v cw =
     (case append_log_retry e (change_payload k v) cw of
        None \<Rightarrow> None
      | Some (Inl x, cw') \<Rightarrow> Some (Inl x, cw')
      | Some (Inr response, cw') \<Rightarrow> Some (Inr (), cw'))"

definition delitem :: "env \<Rightarrow> key \<Rightarrow> client \<times> world \<Rightarrow> unit result" where
  "delitem e k cw =
     (case refresh e True cw of
        None \<Rightarrow> None
      | Some (Inl x, cw') \<Rightarrow> Some (Inl x, cw')
      | Some (Inr u, c', w') \<Rightarrow>
          (case delitem_val (data c') k of
             Inl x \<Rightarrow> Some (Inl x, c', w')
           | Inr d \<Rightarrow>
               (case append_log_retry e (delete_payload k) (c'\<lparr>data := d\<rparr>, w') of
                  None \<Rightarrow> None
                | Some (Inl x, cw'') \<Rightarrow> Some (Inl x, cw'')
                | Some (Inr response, cw'') \<Rightarrow> Some (Inr (), cw''))))"


subsection \<open>Runs and environments\<close>

text \<open>The decisions of \<open>n\<close> successive calls of \<open>can_update\<close> on one policy object.\<close>

fun decisions :: "env \<Rightarrow> nat \<Rightarrow> policy \<Rightarrow> world \<Rightarrow> bool list \<times> policy \<times> world" where
  "decisions e 0 p w = ([], p, w)"
| "decisions e (Suc n) p w =
     (case can_update e p w of
        (b, p', w') \<Rightarrow>
          (case decisions e n p' w' of (bs, p'', w'') \<Rightarrow> (b # bs, p'', w'')))"

text \<open>A world in which nothing has happened yet, and an environment without peers.\<close>

definition world0 :: world where
  "world0 = \<lparr>sent = [], ticks = 0, draws = 0\<rparr>"

definition quiet_env :: env where
  "quiet_env =
     \<lparr>transport = (\<lambda>h a m. Inl (TransportError ''connection refused'')),
      now = (\<lambda>n. 0),
      randbelow = (\<lambda>n. 0), recursion_room = 1000\<rparr>"

text \<open>
  \<open>redirected_along e m h a bs\<close>: asked with the message \<open>m\<close> after the history \<open>h\<close>, the peer
  at \<open>a\<close> redirects to the first address of \<open>bs\<close>, that one to the second, and so on to
  the last.
\<close>

fun redirected_along :: "env \<Rightarrow> val \<Rightarrow> (address \<times> val) list \<Rightarrow> address \<Rightarrow> address list \<Rightarrow> bool" where
  "redirected_along e m h a [] = True"
| "redirected_along e m h a (b # bs) =
     (case transport e h a m of
        Inl x \<Rightarrow> False
      | Inr resp \<Rightarrow>
          is_redirect resp = Inr True \<and>
          (case getitem_val resp (KStr ''leader'') of
             Inl x \<Rightarrow> False
           | Inr l \<Rightarrow> tuple_of l = Inr b) \<and>
          redirected_along e m (h @ [(a, m)]) b bs)"

text \<open>Concrete addresses, responses, environments and clients.\<close>

definition addrA :: address where
  "addrA = [VStr ''10.0.0.1'', VInt 5254]"

definition addrB :: address where
  "addrB = [VStr ''10.0.0.2'', VInt 5255]"

definition redirect_to :: "address \<Rightarrow> val" where
  "redirect_to a = VMap [(KStr ''type'', VStr ''redirect''), (KStr ''leader'', VList a)]"

definition snapshotB :: val where
  "snapshotB = VMap [(KStr ''cluster'', VList [VList addrA, VList addrB]), (KStr ''x'', VInt 1)]"

definition loop_env :: env where
  "loop_env =
     \<lparr>transport = (\<lambda>h a m. Inr (redirect_to addrB)), now = (\<lambda>n. 0), randbelow = (\<lambda>n. 0), recursion_room = 1000\<rparr>"

definition ab_env :: env where
  "ab_env =
     \<lparr>transport = (\<lambda>h a m. if a = addrA then Inr (redirect_to addrB) else Inr snapshotB),
      now = (\<lambda>n. 0), randbelow = (\<lambda>n. 0), recursion_room = 1000\<rparr>"

definition client_at :: "address \<Rightarrow> client" where
  "client_at a =
     \<lparr>server_address = Some a,
      data = VMap [(KStr ''cluster'', VList [VTuple a])],
      append_retry_attempts = 3,
      refresh_policy = RefreshPolicyAlways\<rparr>"

definition chain_env :: "int \<Rightarrow> env" where
  "chain_env n =
     \<lparr>transport =
        (\<lambda>h a m. case a of
           [VInt i] \<Rightarrow> if i < n then Inr (redirect_to [VInt (i + 1)]) else Inr snapshotB
         | _ \<Rightarrow> Inl (TransportError ''unreachable'')),
      now = (\<lambda>n. 0), randbelow = (\<lambda>n. 0), recursion_room = 1000\<rparr>"

definition short_stack_env :: env where
  "short_stack_env = (chain_env 5)\<lparr>recursion_room := 2\<rparr>"

definition refusing_env :: env where
  "refusing_env =
     \<lparr>transport = (\<lambda>h a m. Inr (VMap [(KStr ''success'', VBool False)])),
      now = (\<lambda>n. 0), randbelow = (\<lambda>n. 0), recursion_room = 1000\<rparr>"

text \<open>
  What a call that only makes requests with one message \<open>m\<close> may change between the states
  \<open>cw\<close> and \<open>cw'\<close>: the log of sent messages grows by entries that carry \<open>m\<close> (by at least
  one when a contact is set), the contact stays set, and nothing else changes.
\<close>

definition framed :: "val \<Rightarrow> client \<times> world \<Rightarrow> client \<times> world \<Rightarrow> bool" where
  "framed m cw cw' =
     ((\<exists>as. sent (snd cw') = sent (snd cw) @ map (\<lambda>a. (a, m)) as \<and>
            (server_address (fst cw) \<noteq> None \<longrightarrow> as \<noteq> [])) \<and>
      ticks (snd cw') = ticks (snd cw) \<and> draws (snd cw') = draws (snd cw) \<and>
      data (fst cw') = data (fst cw) \<and>
      refresh_policy (fst cw') = refresh_policy (fst cw) \<and>
      append_retry_attempts (fst cw') = append_retry_attempts (fst cw) \<and>
      (server_address (fst cw) \<noteq> None \<longrightarrow> server_address (fst cw') \<noteq> None))"

text \<open>Snapshots, append results, environments and clients for the runs below.\<close>

definition snapshotA :: val where
  "snapshotA = VMap [(KStr ''cluster'', VList [VList addrA]), (KStr ''a'', VInt 1)]"

definition accepted :: val where
  "accepted = VMap [(KStr ''success'', VBool True)]"

definition refused :: val where
  "refused = VMap [(KStr ''success'', VBool False)]"

definition store_env :: env where
  "store_env =
     \<lparr>transport = (\<lambda>h a m. if m = get_msg then Inr snapshotB else Inr accepted),
      now = (\<lambda>n. 0), randbelow = (\<lambda>n. 0), recursion_room = 1000\<rparr>"

definition mirror_env :: env where
  "mirror_env =
     \<lparr>transport = (\<lambda>h a m. if m = get_msg then Inr snapshotA else Inr refused),
      now = (\<lambda>n. 0), randbelow = (\<lambda>n. 0), recursion_room = 1000\<rparr>"

definition locked_client :: "val \<Rightarrow> client" where
  "locked_client d =
     \<lparr>server_address = Some addrA, data = d, append_retry_attempts = 3,
      refresh_policy = RefreshPolicyLock False\<rparr>"



section \<open>Properties\<close>

subsection \<open>Refresh policies\<close>

lemma upt_0_Suc_map: "[0..<Suc n] = 0 # map Suc [0..<n]"
proof -
  have "[0..<Suc n] = 0 # [Suc 0..<Suc n]" by (rule upt_conv_Cons) simp
  then show ?thesis by (simp only: map_Suc_upt)
qed

lemma map_upt_Suc_shift: "map f [0..<Suc n] = f 0 # map (\<lambda>i. f (Suc i)) [0..<n]"
  by (simp only: upt_0_Suc_map list.map map_map o_def)

lemma decisions_count_3:
  "0 \<le> c \<Longrightarrow> c < 3 \<Longrightarrow>
   decisions e n (RefreshPolicyCount c 3) w =
     (map (\<lambda>i. (nat c + i + 1) mod 3 = 0) [0..<n],
      RefreshPolicyCount (int ((nat c + n) mod 3)) 3, w)"
proof (induction n arbitrary: c)
  case 0
  then show ?case by simp
next
  case (Suc n)
  show ?case
  proof (cases "c = 2")
    case True
    have "decisions e n (RefreshPolicyCount 0 3) w =
      (map (\<lambda>i. (nat 0 + i + 1) mod 3 = 0) [0..<n],
       RefreshPolicyCount (int ((nat 0 + n) mod 3)) 3, w)"
      by (rule Suc.IH) simp_all
    with True show ?thesis
      by (simp add: map_upt_Suc_shift del: upt_Suc)
  next
    case False
    with Suc.prems have c: "0 \<le> c + 1" "c + 1 < 3" by simp_all
    have n: "nat (c + 1) = Suc (nat c)" using Suc.prems by simp
    have "decisions e n (RefreshPolicyCount (c + 1) 3) w =
      (map (\<lambda>i. (nat (c + 1) + i + 1) mod 3 = 0) [0..<n],
       RefreshPolicyCount (int ((nat (c + 1) + n) mod 3)) 3, w)"
      by (rule Suc.IH [OF c])
    with False Suc.prems show ?thesis
      by (simp add: map_upt_Suc_shift n del: upt_Suc)
  qed
qed

lemma decisions_count_3_six:
  "fst (decisions e 6 (RefreshPolicyCount 0 3) w) = [False, False, True, False, False, True]"
proof -
  have six: "(6::nat) = Suc (Suc (Suc (Suc (Suc (Suc 0)))))" by simp
  show ?thesis unfolding six by simp
qed

text \<open>
  C7. A \<open>RefreshPolicyCount\<close> built with maximum 3 starts with counter 0, and the results
  of its successive \<open>can_update\<close> calls are False, False, True, False, False, True, ...:
  call number \<open>i + 1\<close> answers True exactly when 3 divides \<open>i + 1\<close>, and after \<open>n\<close> calls
  the counter is \<open>n mod 3\<close> (it is back at 0 after every True).
\<close>

theorem count_gated_period_3:
  "RefreshPolicyCount_init 3 = Inr (RefreshPolicyCount 0 3) \<and>
   fst (decisions e n (RefreshPolicyCount 0 3) w) = map (\<lambda>i. (i + 1) mod 3 = 0) [0..<n] \<and>
   fst (snd (decisions e n (RefreshPolicyCount 0 3) w)) = RefreshPolicyCount (int (n mod 3)) 3 \<and>
   fst (decisions e 6 (RefreshPolicyCount 0 3) w) = [False, False, True, False, False, True]"
  using decisions_count_3 [of 0 e n w] decisions_count_3_six [of e w]
  by (simp add: RefreshPolicyCount_init_def)

lemma decisions_count_nonpositive:
  "0 \<le> c \<Longrightarrow> m < 1 \<Longrightarrow>
   decisions e n (RefreshPolicyCount c m) w =
     (replicate n False, RefreshPolicyCount (c + int n) m, w)"
proof (induction n arbitrary: c)
  case 0
  then show ?case by simp
next
  case (Suc n)
  from Suc.prems have "0 \<le> c + 1" by simp
  from Suc.IH [OF this Suc.prems(2)] Suc.prems show ?case
    by (simp add: add.assoc)
qed

text \<open>
  C5, as the code has it. The constructor of \<open>RefreshPolicyCount\<close> checks nothing: with a
  maximum below 1 it returns a policy object like any other, and on that object every
  \<open>can_update\<close> answers False while the counter grows by one per call and is never reset.
\<close>

theorem count_gated_nonpositive_maximum:
  "maxi < 1 \<Longrightarrow>
   RefreshPolicyCount_init maxi = Inr (RefreshPolicyCount 0 maxi) \<and>
   decisions e n (RefreshPolicyCount 0 maxi) w =
     (replicate n False, RefreshPolicyCount (int n) maxi, w)"
  using decisions_count_nonpositive [of 0 maxi e n w]
  by (simp add: RefreshPolicyCount_init_def)

theorem count_gated_nonpositive_maximum_witness:
  "(0::int) < 1 \<and>
   RefreshPolicyCount_init 0 = Inr (RefreshPolicyCount 0 0) \<and>
   decisions quiet_env 2 (RefreshPolicyCount 0 0) world0 =
     ([False, False], RefreshPolicyCount 2 0, world0)"
  using count_gated_nonpositive_maximum [of 0 quiet_env 2 world0]
  by (simp add: numeral_2_eq_2)

text \<open>
  C5, as the specification states it, fails: the constructor called with maximum 0 returns a
  policy and raises nothing, and the policy is usable (its first decision is False).
\<close>

theorem count_gated_zero_is_constructed:
  "RefreshPolicyCount_init 0 = Inr (RefreshPolicyCount 0 0) \<and>
   \<not> isl (RefreshPolicyCount_init 0) \<and>
   fst (can_update quiet_env (RefreshPolicyCount 0 0) world0) = False"
  by (simp add: RefreshPolicyCount_init_def)

lemma can_update_time_first:
  "can_update e (RefreshPolicyTime d None) w =
     (True, RefreshPolicyTime d (Some (now e (ticks w))), w\<lparr>ticks := ticks w + 1\<rparr>)"
  by simp

lemma can_update_time_within:
  "now e (ticks w) - l \<le> d \<Longrightarrow>
   can_update e (RefreshPolicyTime d (Some l)) w =
     (False, RefreshPolicyTime d (Some l), w\<lparr>ticks := ticks w + 1\<rparr>)"
  by simp

lemma can_update_time_after:
  "now e (ticks w) - l > d \<Longrightarrow>
   can_update e (RefreshPolicyTime d (Some l)) w =
     (True, RefreshPolicyTime d (Some (now e (ticks w + 1))), w\<lparr>ticks := ticks w + 2\<rparr>)"
  by simp

text \<open>
  C4. \<open>RefreshPolicyTime.__init__\<close> calls its argument. Given an interval, that is a
  \<open>timedelta\<close> value such as \<open>timedelta(seconds=1)\<close> (in microseconds below), the call
  raises TypeError and no policy object comes into being; the same happens with the
  constructor's own default argument. The decisions that the claim describes are those of
  \<open>can_update\<close> (lemmas \<open>can_update_time_first\<close>, \<open>can_update_time_within\<close> and
  \<open>can_update_time_after\<close>), but only a policy built from a callable reaches them.
\<close>

theorem time_gated_constructor_raises:
  "RefreshPolicyTime_init (Timedelta 1000000) = Inl TypeError \<and>
   RefreshPolicyTime_init (Timedelta d) = Inl TypeError \<and>
   RefreshPolicyTime_default = Inl TypeError"
  by (simp add: RefreshPolicyTime_default_def)

subsection \<open>Requests and redirects\<close>

lemma request_within_unset:
  "server_address c = None \<Longrightarrow> request_within d e m (c, w) = Some (Inl AttributeError, c, w)"
  by (subst request_within.simps) simp

lemma request_within_transport_error:
  "server_address c = Some a \<Longrightarrow> transport e (sent w) a m = Inl x \<Longrightarrow>
   request_within d e m (c, w) = Some (Inl x, c, w\<lparr>sent := sent w @ [(a, m)]\<rparr>)"
  by (subst request_within.simps) simp

lemma request_within_answer:
  "server_address c = Some a \<Longrightarrow> transport e (sent w) a m = Inr resp \<Longrightarrow>
   is_redirect resp = Inr False \<Longrightarrow>
   request_within d e m (c, w) = Some (Inr resp, c, w\<lparr>sent := sent w @ [(a, m)]\<rparr>)"
  by (subst request_within.simps) simp

lemma request_within_redirect:
  "server_address c = Some a \<Longrightarrow> transport e (sent w) a m = Inr resp \<Longrightarrow>
   is_redirect resp = Inr True \<Longrightarrow> getitem_val resp (KStr ''leader'') = Inr l \<Longrightarrow>
   tuple_of l = Inr t \<Longrightarrow>
   request_within (Suc d) e m (c, w) =
     request_within d e m (c\<lparr>server_address := Some t\<rparr>, w\<lparr>sent := sent w @ [(a, m)]\<rparr>)"
  by (subst request_within.simps) simp

lemma request_within_no_room:
  "server_address c = Some a \<Longrightarrow> transport e (sent w) a m = Inr resp \<Longrightarrow>
   is_redirect resp = Inr True \<Longrightarrow> getitem_val resp (KStr ''leader'') = Inr l \<Longrightarrow>
   tuple_of l = Inr t \<Longrightarrow>
   request_within 0 e m (c, w) =
     Some (Inl RecursionError, c\<lparr>server_address := Some t\<rparr>, w\<lparr>sent := sent w @ [(a, m)]\<rparr>)"
  by (subst request_within.simps) simp

lemma request_unset:
  "server_address c = None \<Longrightarrow> request e m (c, w) = Some (Inl AttributeError, c, w)"
  unfolding request_def by (rule request_within_unset)

lemma request_transport_error:
  "server_address c = Some a \<Longrightarrow> transport e (sent w) a m = Inl x \<Longrightarrow>
   request e m (c, w) = Some (Inl x, c, w\<lparr>sent := sent w @ [(a, m)]\<rparr>)"
  unfolding request_def by (rule request_within_transport_error)

lemma request_answer:
  "server_address c = Some a \<Longrightarrow> transport e (sent w) a m = Inr resp \<Longrightarrow>
   is_redirect resp = Inr False \<Longrightarrow>
   request e m (c, w) = Some (Inr resp, c, w\<lparr>sent := sent w @ [(a, m)]\<rparr>)"
  unfolding request_def by (rule request_within_answer)

text \<open>Every call returns: with a value or with an exception.\<close>

lemma request_within_returns: "\<exists>y. request_within d e m cw = Some y"
proof (induction d arbitrary: cw)
  case 0
  show ?case
    by (subst request_within.simps) (simp split: option.split sum.split)
next
  case (Suc d)
  have nested: "\<exists>r c w. request_within d e m cw' = Some (r, c, w)" for cw'
    using Suc.IH [of cw'] by auto
  show ?case
    by (subst request_within.simps) (simp add: nested split: option.split sum.split)
qed

lemma request_returns: "\<exists>y. request e m cw = Some y"
  unfolding request_def by (rule request_within_returns)

text \<open>A chain of redirects that fits under the recursion limit is followed to its end.\<close>

lemma request_within_chain:
  "server_address c = Some a \<Longrightarrow> redirected_along e m (sent w) a bs \<Longrightarrow> length bs \<le> d \<Longrightarrow>
   transport e (sent w @ map (\<lambda>x. (x, m)) (butlast (a # bs))) (last (a # bs)) m = Inr resp \<Longrightarrow>
   is_redirect resp = Inr False \<Longrightarrow>
   request_within d e m (c, w) =
     Some (Inr resp, c\<lparr>server_address := Some (last (a # bs))\<rparr>,
           w\<lparr>sent := sent w @ map (\<lambda>x. (x, m)) (a # bs)\<rparr>)"
proof (induction bs arbitrary: c w a d)
  case Nil
  then show ?case by (simp add: request_within_answer)
next
  case (Cons b bs)
  from Cons.prems(3) obtain d' where d: "d = Suc d'" "length bs \<le> d'"
    by (cases d) simp_all
  from Cons.prems(2) obtain r l where
    r: "transport e (sent w) a m = Inr r" "is_redirect r = Inr True"
       "getitem_val r (KStr ''leader'') = Inr l" "tuple_of l = Inr b"
    and rest: "redirected_along e m (sent w @ [(a, m)]) b bs"
    by (auto split: sum.splits)
  let ?c = "c\<lparr>server_address := Some b\<rparr>"
  let ?w = "w\<lparr>sent := sent w @ [(a, m)]\<rparr>"
  have step: "request_within d e m (c, w) = request_within d' e m (?c, ?w)"
    unfolding d(1) by (rule request_within_redirect [OF Cons.prems(1) r])
  have "request_within d' e m (?c, ?w) =
     Some (Inr resp, ?c\<lparr>server_address := Some (last (b # bs))\<rparr>,
           ?w\<lparr>sent := sent ?w @ map (\<lambda>x. (x, m)) (b # bs)\<rparr>)"
  proof (rule Cons.IH)
    show "server_address ?c = Some b" by simp
    show "redirected_along e m (sent ?w) b bs" using rest by simp
    show "length bs \<le> d'" by (rule d(2))
    show "transport e (sent ?w @ map (\<lambda>x. (x, m)) (butlast (b # bs))) (last (b # bs)) m = Inr resp"
      using Cons.prems(4) by simp
    show "is_redirect resp = Inr False" by (rule Cons.prems(5))
  qed
  with step show ?case by simp
qed

text \<open>
  A longer chain is followed as far as the recursion limit allows: \<open>d + 1\<close> round-trips,
  then RecursionError from the nested call, after the address named by the last redirect
  received has been assigned.
\<close>

lemma request_within_exhausted:
  "server_address c = Some a \<Longrightarrow> redirected_along e m (sent w) a bs \<Longrightarrow> d < length bs \<Longrightarrow>
   request_within d e m (c, w) =
     Some (Inl RecursionError, c\<lparr>server_address := Some (bs ! d)\<rparr>,
           w\<lparr>sent := sent w @ map (\<lambda>x. (x, m)) (a # take d bs)\<rparr>)"
proof (induction d arbitrary: c w a bs)
  case 0
  then obtain b bs' where bs: "bs = b # bs'" by (cases bs) simp_all
  from "0.prems"(2) bs obtain r l where
    r: "transport e (sent w) a m = Inr r" "is_redirect r = Inr True"
       "getitem_val r (KStr ''leader'') = Inr l" "tuple_of l = Inr b"
    by (auto split: sum.splits)
  from request_within_no_room [OF "0.prems"(1) r] bs show ?case by simp
next
  case (Suc d)
  then obtain b bs' where bs: "bs = b # bs'" by (cases bs) simp_all
  from Suc.prems(2) bs obtain r l where
    r: "transport e (sent w) a m = Inr r" "is_redirect r = Inr True"
       "getitem_val r (KStr ''leader'') = Inr l" "tuple_of l = Inr b"
    and rest: "redirected_along e m (sent w @ [(a, m)]) b bs'"
    by (auto split: sum.splits)
  let ?c = "c\<lparr>server_address := Some b\<rparr>"
  let ?w = "w\<lparr>sent := sent w @ [(a, m)]\<rparr>"
  have step: "request_within (Suc d) e m (c, w) = request_within d e m (?c, ?w)"
    by (rule request_within_redirect [OF Suc.prems(1) r])
  have "request_within d e m (?c, ?w) =
     Some (Inl RecursionError, ?c\<lparr>server_address := Some (bs' ! d)\<rparr>,
           ?w\<lparr>sent := sent ?w @ map (\<lambda>x. (x, m)) (b # take d bs')\<rparr>)"
  proof (rule Suc.IH)
    show "server_address ?c = Some b" by simp
    show "redirected_along e m (sent ?w) b bs'" using rest by simp
    show "d < length bs'" using Suc.prems(3) bs by simp
  qed
  with step bs show ?case by simp
qed

lemma redirected_along_to_addrB:
  "transport e = (\<lambda>h a m. Inr (redirect_to addrB)) \<Longrightarrow>
   redirected_along e m h a (replicate n addrB)"
  by (induction n arbitrary: h a) (simp_all add: redirect_to_def key_eq_def)

lemma request_to_addrB_exhausts:
  assumes "transport e = (\<lambda>h a m. Inr (redirect_to addrB))"
  shows "request e m (client_at a, world0) =
     Some (Inl RecursionError, (client_at a)\<lparr>server_address := Some addrB\<rparr>,
           world0\<lparr>sent := (a, m) # replicate (recursion_room e) (addrB, m)\<rparr>)"
proof -
  let ?d = "recursion_room e"
  have "request_within ?d e m (client_at a, world0) =
     Some (Inl RecursionError, (client_at a)\<lparr>server_address := Some (replicate (Suc ?d) addrB ! ?d)\<rparr>,
           world0\<lparr>sent := sent world0 @ map (\<lambda>x. (x, m)) (a # take ?d (replicate (Suc ?d) addrB))\<rparr>)"
  proof (rule request_within_exhausted)
    show "server_address (client_at a) = Some a" by (simp add: client_at_def)
    show "redirected_along e m (sent world0) a (replicate (Suc ?d) addrB)"
      by (rule redirected_along_to_addrB [OF assms])
    show "?d < length (replicate (Suc ?d) addrB)" by simp
  qed
  moreover have "replicate (Suc ?d) addrB ! ?d = addrB"
    by (rule nth_replicate) simp
  moreover have "take ?d (replicate (Suc ?d) addrB) = replicate ?d addrB"
    by (simp only: take_replicate) simp
  ultimately have "request_within ?d e m (client_at a, world0) =
     Some (Inl RecursionError, (client_at a)\<lparr>server_address := Some addrB\<rparr>,
           world0\<lparr>sent := sent world0 @ map (\<lambda>x. (x, m)) (a # replicate ?d addrB)\<rparr>)"
    by (simp only:)
  then show ?thesis unfolding request_def by (simp add: world0_def)
qed

text \<open>
  C1, as the specification states it, fails. Against peers that answer every request with
  a redirect the call does end, but the client has no hop counter, no configured maximum
  and no RedirectLoopError: what ends the chain is the interpreter's recursion limit, and
  what is raised is RecursionError. With room for 1000 nested calls the client makes 1001
  round-trips before it fails, with room for 3 it makes 4.
\<close>

theorem redirect_loop_raises_recursion_error:
  "request loop_env get_msg (client_at addrA, world0) =
     Some (Inl RecursionError, (client_at addrA)\<lparr>server_address := Some addrB\<rparr>,
           world0\<lparr>sent := (addrA, get_msg) # replicate 1000 (addrB, get_msg)\<rparr>) \<and>
   request (loop_env\<lparr>recursion_room := 3\<rparr>) get_msg (client_at addrA, world0) =
     Some (Inl RecursionError, (client_at addrA)\<lparr>server_address := Some addrB\<rparr>,
           world0\<lparr>sent := [(addrA, get_msg), (addrB, get_msg), (addrB, get_msg),
                             (addrB, get_msg)]\<rparr>)"
proof -
  have t: "transport loop_env = (\<lambda>h a m. Inr (redirect_to addrB))"
    "transport (loop_env\<lparr>recursion_room := 3\<rparr>) = (\<lambda>h a m. Inr (redirect_to addrB))"
    by (simp_all add: loop_env_def)
  have r: "recursion_room loop_env = 1000" "recursion_room (loop_env\<lparr>recursion_room := 3\<rparr>) = 3"
    by (simp_all add: loop_env_def)
  have three: "replicate 3 x = [x, x, x]" for x :: "address \<times> val"
    by (simp add: numeral_3_eq_3)
  from request_to_addrB_exhausts [OF t(1), of get_msg addrA]
       request_to_addrB_exhausts [OF t(2), of get_msg addrA]
  show ?thesis unfolding r three by simp
qed

text \<open>
  C1, as the code has it. The client sets no bound of its own on redirects: the only bound
  is the room that the interpreter's recursion limit leaves for nested calls. When the
  peers redirect along \<open>bs\<close> and the chain fits into that room, every redirect is followed:
  once the last peer answers with a response that is not a redirect, the request has made
  one round-trip per address (\<open>length bs + 1\<close> in all), returns that response and leaves the
  last address as the tracked leader. When the chain is longer than the room, the request
  makes \<open>recursion_room + 1\<close> round-trips, assigns the address named by the last redirect it
  received, and fails with RecursionError.
\<close>

theorem redirects_bounded_by_recursion_limit:
  assumes "server_address c = Some a"
    and "redirected_along e m (sent w) a bs"
  shows "(length bs \<le> recursion_room e \<and>
          transport e (sent w @ map (\<lambda>x. (x, m)) (butlast (a # bs))) (last (a # bs)) m = Inr resp \<and>
          is_redirect resp = Inr False \<longrightarrow>
          request e m (c, w) =
            Some (Inr resp, c\<lparr>server_address := Some (last (a # bs))\<rparr>,
                  w\<lparr>sent := sent w @ map (\<lambda>x. (x, m)) (a # bs)\<rparr>)) \<and>
         (recursion_room e < length bs \<longrightarrow>
          request e m (c, w) =
            Some (Inl RecursionError, c\<lparr>server_address := Some (bs ! recursion_room e)\<rparr>,
                  w\<lparr>sent := sent w @ map (\<lambda>x. (x, m)) (a # take (recursion_room e) bs)\<rparr>))"
  unfolding request_def
  using request_within_chain [OF assms, of "recursion_room e" resp]
        request_within_exhausted [OF assms, of "recursion_room e"]
  by blast

theorem redirects_bounded_by_recursion_limit_witness:
  "server_address (client_at [VInt 0]) = Some [VInt 0] \<and>
   redirected_along (chain_env 3) get_msg [] [VInt 0] [[VInt 1], [VInt 2], [VInt 3]] \<and>
   length [[VInt 1], [VInt 2], [VInt 3]] \<le> recursion_room (chain_env 3) \<and>
   transport (chain_env 3) [([VInt 0], get_msg), ([VInt 1], get_msg), ([VInt 2], get_msg)]
     [VInt 3] get_msg = Inr snapshotB \<and>
   is_redirect snapshotB = Inr False \<and>
   request (chain_env 3) get_msg (client_at [VInt 0], world0) =
     Some (Inr snapshotB, (client_at [VInt 0])\<lparr>server_address := Some [VInt 3]\<rparr>,
           world0\<lparr>sent := [([VInt 0], get_msg), ([VInt 1], get_msg), ([VInt 2], get_msg),
                             ([VInt 3], get_msg)]\<rparr>) \<and>
   redirected_along short_stack_env get_msg [] [VInt 0] [[VInt 1], [VInt 2], [VInt 3]] \<and>
   recursion_room short_stack_env < length [[VInt 1], [VInt 2], [VInt 3]] \<and>
   request short_stack_env get_msg (client_at [VInt 0], world0) =
     Some (Inl RecursionError, (client_at [VInt 0])\<lparr>server_address := Some [VInt 3]\<rparr>,
           world0\<lparr>sent := [([VInt 0], get_msg), ([VInt 1], get_msg), ([VInt 2], get_msg)]\<rparr>)"
proof -
  let ?bs = "[[VInt 1], [VInt 2], [VInt 3]]"
  have h1: "server_address (client_at [VInt 0]) = Some [VInt 0]" by (simp add: client_at_def)
  have h2: "redirected_along (chain_env 3) get_msg (sent world0) [VInt 0] ?bs"
    by (simp add: chain_env_def redirect_to_def key_eq_def world0_def)
  have h3: "length ?bs \<le> recursion_room (chain_env 3)" by (simp add: chain_env_def)
  have h4: "transport (chain_env 3) [([VInt 0], get_msg), ([VInt 1], get_msg), ([VInt 2], get_msg)]
     [VInt 3] get_msg = Inr snapshotB"
    by (simp add: chain_env_def)
  have h5: "is_redirect snapshotB = Inr False"
    by (simp add: snapshotB_def key_eq_def)
  have h6: "redirected_along short_stack_env get_msg (sent world0) [VInt 0] ?bs"
    by (simp add: short_stack_env_def chain_env_def redirect_to_def key_eq_def world0_def)
  have h7: "recursion_room short_stack_env < length ?bs"
    by (simp add: short_stack_env_def)
  have r: "recursion_room short_stack_env = 2" by (simp add: short_stack_env_def)
  from redirects_bounded_by_recursion_limit [OF h1 h2, of snapshotB] h3 h4 h5
  have g1: "request (chain_env 3) get_msg (client_at [VInt 0], world0) =
     Some (Inr snapshotB, (client_at [VInt 0])\<lparr>server_address := Some [VInt 3]\<rparr>,
           world0\<lparr>sent := [([VInt 0], get_msg), ([VInt 1], get_msg), ([VInt 2], get_msg),
                             ([VInt 3], get_msg)]\<rparr>)"
    by (simp add: world0_def)
  from redirects_bounded_by_recursion_limit [OF h1 h6, of snapshotB] h7
  have g2: "request short_stack_env get_msg (client_at [VInt 0], world0) =
     Some (Inl RecursionError, (client_at [VInt 0])\<lparr>server_address := Some [VInt 3]\<rparr>,
           world0\<lparr>sent := [([VInt 0], get_msg), ([VInt 1], get_msg), ([VInt 2], get_msg)]\<rparr>)"
    by (simp add: r world0_def numeral_2_eq_2)
  from h1 h2 h3 h4 h5 g1 h6 h7 g2 show ?thesis by (simp only: world0_def world.simps simp_thms)
qed

text \<open>
  C6. When the tracked contact \<open>A\<close> answers with a redirect that names \<open>B\<close> and \<open>B\<close>
  answers the same message with a response that is not a redirect, the request returns
  \<open>B\<close>'s response, the tracked address is \<open>B\<close> afterwards, and exactly two round-trips
  were made with the one message: first to \<open>A\<close>, then to \<open>B\<close>. The one nested call
  has to fit under the interpreter's recursion limit.
\<close>

theorem redirect_convergence:
  assumes "server_address c = Some A"
    and "transport e (sent w) A m = Inr respA"
    and "is_redirect respA = Inr True"
    and "getitem_val respA (KStr ''leader'') = Inr l"
    and "tuple_of l = Inr B"
    and "transport e (sent w @ [(A, m)]) B m = Inr respB"
    and "is_redirect respB = Inr False"
    and "1 \<le> recursion_room e"
  shows "request e m (c, w) =
           Some (Inr respB, c\<lparr>server_address := Some B\<rparr>,
                 w\<lparr>sent := sent w @ [(A, m), (B, m)]\<rparr>)"
proof -
  from assms(8) obtain d where d: "recursion_room e = Suc d"
    by (cases "recursion_room e") simp_all
  have "request e m (c, w) =
          request_within d e m (c\<lparr>server_address := Some B\<rparr>, w\<lparr>sent := sent w @ [(A, m)]\<rparr>)"
    unfolding request_def d using assms(1-5) by (rule request_within_redirect)
  also have "\<dots> = Some (Inr respB, c\<lparr>server_address := Some B\<rparr>,
       w\<lparr>sent := sent w @ [(A, m)]\<rparr>\<lparr>sent := sent (w\<lparr>sent := sent w @ [(A, m)]\<rparr>) @ [(B, m)]\<rparr>)"
    using assms(6,7) by (intro request_within_answer) simp_all
  finally show ?thesis by simp
qed

theorem redirect_convergence_witness:
  "server_address (client_at addrA) = Some addrA \<and>
   transport ab_env (sent world0) addrA get_msg = Inr (redirect_to addrB) \<and>
   is_redirect (redirect_to addrB) = Inr True \<and>
   getitem_val (redirect_to addrB) (KStr ''leader'') = Inr (VList addrB) \<and>
   tuple_of (VList addrB) = Inr addrB \<and>
   transport ab_env (sent world0 @ [(addrA, get_msg)]) addrB get_msg = Inr snapshotB \<and>
   is_redirect snapshotB = Inr False \<and>
   1 \<le> recursion_room ab_env \<and>
   request ab_env get_msg (client_at addrA, world0) =
     Some (Inr snapshotB, (client_at addrA)\<lparr>server_address := Some addrB\<rparr>,
           world0\<lparr>sent := [(addrA, get_msg), (addrB, get_msg)]\<rparr>)"
proof -
  have h1: "server_address (client_at addrA) = Some addrA" by (simp add: client_at_def)
  have h2: "transport ab_env (sent world0) addrA get_msg = Inr (redirect_to addrB)"
    by (simp add: ab_env_def)
  have h3: "is_redirect (redirect_to addrB) = Inr True"
    by (simp add: redirect_to_def key_eq_def)
  have h4: "getitem_val (redirect_to addrB) (KStr ''leader'') = Inr (VList addrB)"
    by (simp add: redirect_to_def key_eq_def)
  have h5: "tuple_of (VList addrB) = Inr addrB" by simp
  have h6: "transport ab_env (sent world0 @ [(addrA, get_msg)]) addrB get_msg = Inr snapshotB"
    by (simp add: ab_env_def addrA_def addrB_def)
  have h7: "is_redirect snapshotB = Inr False"
    by (simp add: snapshotB_def key_eq_def)
  have h8: "1 \<le> recursion_room ab_env" by (simp add: ab_env_def)
  from redirect_convergence [OF h1 h2 h3 h4 h5 h6 h7 h8] h1 h2 h3 h4 h5 h6 h7 h8
  show ?thesis by (simp add: world0_def)
qed

subsection \<open>The write path\<close>

text \<open>
  The loop of \<open>DistributedDict._append_log\<close> against peers that answer every attempt with a
  response that is not a redirect and carries a \<open>success\<close> entry: \<open>rs i\<close> is the response to
  attempt \<open>i\<close> (counted from 0) and \<open>sv i\<close> its \<open>success\<close> value.
\<close>

lemma retry_loop_run:
  assumes sa: "server_address c = Some a"
  shows "1 \<le> j \<Longrightarrow>
    (\<forall>i<j. transport e (sent w @ replicate i (a, append_msg p)) a (append_msg p) = Inr (rs i) \<and>
           is_redirect (rs i) = Inr False \<and>
           getitem_val (rs i) (KStr ''success'') = Inr (sv i)) \<Longrightarrow>
    \<exists>k. 1 \<le> k \<and> k \<le> j \<and>
        retry_loop e p j prev (c, w) =
          Some (Inr (rs (k - 1)), c, w\<lparr>sent := sent w @ replicate k (a, append_msg p)\<rparr>) \<and>
        (\<forall>i<k - 1. \<not> truthy (sv i)) \<and> (truthy (sv (k - 1)) \<or> k = j)"
proof (induction j arbitrary: w rs sv prev)
  case 0
  then show ?case by simp
next
  case (Suc j)
  let ?m = "append_msg p"
  let ?w1 = "w\<lparr>sent := sent w @ [(a, ?m)]\<rparr>"
  from Suc.prems(2) have r0: "transport e (sent w) a ?m = Inr (rs 0)"
    "is_redirect (rs 0) = Inr False" "getitem_val (rs 0) (KStr ''success'') = Inr (sv 0)"
    by force+
  have first: "append_log e p (c, w) = Some (Inr (rs 0), c, ?w1)"
    unfolding append_log_def by (rule request_answer [OF sa r0(1,2)])
  show ?case
  proof (cases "truthy (sv 0)")
    case True
    with first r0 have "retry_loop e p (Suc j) prev (c, w) = Some (Inr (rs 0), c, ?w1)"
      by simp
    with True show ?thesis by (intro exI [of _ 1]) simp
  next
    case False
    with first r0 have unfold:
      "retry_loop e p (Suc j) prev (c, w) = retry_loop e p j (Some (rs 0)) (c, ?w1)"
      by simp
    show ?thesis
    proof (cases j)
      case 0
      with unfold False show ?thesis by (intro exI [of _ 1]) simp
    next
      case (Suc j')
      then have j1: "1 \<le> j" by simp
      have shifted: "\<forall>i<j. transport e (sent ?w1 @ replicate i (a, ?m)) a ?m = Inr (rs (Suc i)) \<and>
           is_redirect (rs (Suc i)) = Inr False \<and>
           getitem_val (rs (Suc i)) (KStr ''success'') = Inr (sv (Suc i))"
      proof (intro allI impI)
        fix i assume "i < j"
        then have "Suc i < Suc j" by simp
        with Suc.prems(2) have
          "transport e (sent w @ replicate (Suc i) (a, ?m)) a ?m = Inr (rs (Suc i)) \<and>
           is_redirect (rs (Suc i)) = Inr False \<and>
           getitem_val (rs (Suc i)) (KStr ''success'') = Inr (sv (Suc i))"
          by blast
        then show "transport e (sent ?w1 @ replicate i (a, ?m)) a ?m = Inr (rs (Suc i)) \<and>
           is_redirect (rs (Suc i)) = Inr False \<and>
           getitem_val (rs (Suc i)) (KStr ''success'') = Inr (sv (Suc i))"
          by simp
      qed
      from Suc.IH [OF j1 shifted, of "Some (rs 0)"] obtain k where k:
        "1 \<le> k" "k \<le> j"
        "retry_loop e p j (Some (rs 0)) (c, ?w1) =
           Some (Inr (rs (Suc (k - 1))), c, ?w1\<lparr>sent := sent ?w1 @ replicate k (a, ?m)\<rparr>)"
        "\<forall>i<k - 1. \<not> truthy (sv (Suc i))" "truthy (sv (Suc (k - 1))) \<or> k = j"
        by blast
      have earlier: "\<forall>i<k. \<not> truthy (sv i)"
      proof (intro allI impI)
        fix i assume "i < k"
        show "\<not> truthy (sv i)"
        proof (cases i)
          case 0
          with False show ?thesis by simp
        next
          case (Suc i')
          with \<open>i < k\<close> have "i' < k - 1" by simp
          with k(4) Suc show ?thesis by simp
        qed
      qed
      from k(1) have sk: "Suc (k - 1) = k" by simp
      show ?thesis
      proof (intro exI [of _ "Suc k"] conjI)
        show "1 \<le> Suc k" by simp
        show "Suc k \<le> Suc j" using k(2) by simp
        show "retry_loop e p (Suc j) prev (c, w) =
          Some (Inr (rs (Suc k - 1)), c, w\<lparr>sent := sent w @ replicate (Suc k) (a, ?m)\<rparr>)"
          using unfold k(3) sk by simp
        show "\<forall>i<Suc k - 1. \<not> truthy (sv i)" using earlier by simp
        show "truthy (sv (Suc k - 1)) \<or> Suc k = Suc j" using k(5) sk by simp
      qed
    qed
  qed
qed

text \<open>
  C2. With at least one attempt configured, and peers that answer each attempt with an
  append result, \<open>_append_log\<close> makes \<open>k\<close> attempts with \<open>1 \<le> k \<le> append_retry_attempts\<close>,
  all with the same message; no attempt before the last reported success, and the last
  one either reported success or was attempt number \<open>append_retry_attempts\<close>. The call
  returns the response of the last attempt as a value: nothing is raised on exhaustion.
  In particular, with three attempts configured and every response reporting failure,
  exactly three attempts are made and the returned response reports failure.
\<close>

theorem append_log_bounded_retry:
  assumes "server_address c = Some a"
    and "1 \<le> append_retry_attempts c"
    and "\<forall>i<nat (append_retry_attempts c).
           transport e (sent w @ replicate i (a, append_msg p)) a (append_msg p) = Inr (rs i) \<and>
           is_redirect (rs i) = Inr False \<and>
           getitem_val (rs i) (KStr ''success'') = Inr (sv i)"
  shows "\<exists>k. 1 \<le> k \<and> int k \<le> append_retry_attempts c \<and>
           append_log_retry e p (c, w) =
             Some (Inr (rs (k - 1)), c, w\<lparr>sent := sent w @ replicate k (a, append_msg p)\<rparr>) \<and>
           (\<forall>i<k - 1. \<not> truthy (sv i)) \<and>
           (truthy (sv (k - 1)) \<or> int k = append_retry_attempts c) \<and>
           (append_retry_attempts c = 3 \<and> (\<forall>i<3. \<not> truthy (sv i)) \<longrightarrow>
              k = 3 \<and> \<not> truthy (sv 2))"
proof -
  from assms(2) have j: "1 \<le> nat (append_retry_attempts c)" by simp
  from retry_loop_run [OF assms(1) j assms(3), of None] obtain k where k:
    "1 \<le> k" "k \<le> nat (append_retry_attempts c)"
    "retry_loop e p (nat (append_retry_attempts c)) None (c, w) =
       Some (Inr (rs (k - 1)), c, w\<lparr>sent := sent w @ replicate k (a, append_msg p)\<rparr>)"
    "\<forall>i<k - 1. \<not> truthy (sv i)" "truthy (sv (k - 1)) \<or> k = nat (append_retry_attempts c)"
    by blast
  have three: "k = 3 \<and> \<not> truthy (sv 2)"
    if "append_retry_attempts c = 3" "\<forall>i<3. \<not> truthy (sv i)"
  proof -
    from k(1,2) that(1) have "k - 1 < 3" by simp
    with that(2) have "\<not> truthy (sv (k - 1))" by blast
    with k(5) that show ?thesis by simp
  qed
  show ?thesis
  proof (intro exI [of _ k] conjI)
    show "1 \<le> k" by (rule k(1))
    show "int k \<le> append_retry_attempts c" using k(2) assms(2) by simp
    show "append_log_retry e p (c, w) =
       Some (Inr (rs (k - 1)), c, w\<lparr>sent := sent w @ replicate k (a, append_msg p)\<rparr>)"
      using k(3) by simp
    show "\<forall>i<k - 1. \<not> truthy (sv i)" by (rule k(4))
    show "truthy (sv (k - 1)) \<or> int k = append_retry_attempts c"
      using k(5) assms(2) by auto
    show "append_retry_attempts c = 3 \<and> (\<forall>i<3. \<not> truthy (sv i)) \<longrightarrow>
       k = 3 \<and> \<not> truthy (sv 2)"
      using three by blast
  qed
qed

theorem append_log_bounded_retry_witness:
  "server_address (client_at addrA) = Some addrA \<and>
   1 \<le> append_retry_attempts (client_at addrA) \<and>
   transport refusing_env [] addrA (append_msg (VInt 7)) =
     Inr (VMap [(KStr ''success'', VBool False)]) \<and>
   transport refusing_env [(addrA, append_msg (VInt 7))] addrA (append_msg (VInt 7)) =
     Inr (VMap [(KStr ''success'', VBool False)]) \<and>
   transport refusing_env [(addrA, append_msg (VInt 7)), (addrA, append_msg (VInt 7))] addrA
     (append_msg (VInt 7)) = Inr (VMap [(KStr ''success'', VBool False)]) \<and>
   is_redirect (VMap [(KStr ''success'', VBool False)]) = Inr False \<and>
   getitem_val (VMap [(KStr ''success'', VBool False)]) (KStr ''success'') = Inr (VBool False) \<and>
   \<not> truthy (VBool False) \<and>
   append_log_retry refusing_env (VInt 7) (client_at addrA, world0) =
     Some (Inr (VMap [(KStr ''success'', VBool False)]), client_at addrA,
           world0\<lparr>sent := [(addrA, append_msg (VInt 7)), (addrA, append_msg (VInt 7)),
                             (addrA, append_msg (VInt 7))]\<rparr>)"
proof -
  let ?no = "VMap [(KStr ''success'', VBool False)]"
  have h1: "server_address (client_at addrA) = Some addrA" by (simp add: client_at_def)
  have h2: "1 \<le> append_retry_attempts (client_at addrA)" by (simp add: client_at_def)
  have h3: "\<forall>i<nat (append_retry_attempts (client_at addrA)).
      transport refusing_env (sent world0 @ replicate i (addrA, append_msg (VInt 7))) addrA
        (append_msg (VInt 7)) = Inr ((\<lambda>i. ?no) i) \<and>
      is_redirect ((\<lambda>i. ?no) i) = Inr False \<and>
      getitem_val ((\<lambda>i. ?no) i) (KStr ''success'') = Inr ((\<lambda>i. VBool False) i)"
    by (simp add: refusing_env_def key_eq_def)
  have a3: "append_retry_attempts (client_at addrA) = 3" by (simp add: client_at_def)
  from append_log_bounded_retry [OF h1 h2 h3] obtain k where k:
    "append_log_retry refusing_env (VInt 7) (client_at addrA, world0) =
       Some (Inr ?no, client_at addrA,
             world0\<lparr>sent := sent world0 @ replicate k (addrA, append_msg (VInt 7))\<rparr>)"
    "append_retry_attempts (client_at addrA) = 3 \<and> (\<forall>i<3. \<not> truthy (VBool False)) \<longrightarrow> k = 3"
    by auto
  from k(2) a3 have "k = 3" by simp
  then have "replicate k (addrA, append_msg (VInt 7)) =
    [(addrA, append_msg (VInt 7)), (addrA, append_msg (VInt 7)), (addrA, append_msg (VInt 7))]"
    by (simp add: numeral_3_eq_3)
  moreover have "transport refusing_env h addrA (append_msg (VInt 7)) = Inr ?no" for h
    by (simp add: refusing_env_def)
  moreover have "is_redirect ?no = Inr False" "getitem_val ?no (KStr ''success'') = Inr (VBool False)"
    by (simp_all add: key_eq_def)
  ultimately show ?thesis using k(1) h1 h2 by (simp add: world0_def)
qed

subsection \<open>What requests leave unchanged\<close>

lemma framed_stop:
  "server_address (fst cw) = Some a \<Longrightarrow>
   framed m cw (fst cw, (snd cw)\<lparr>sent := sent (snd cw) @ [(a, m)]\<rparr>)"
  unfolding framed_def by (auto intro: exI [of _ "[a]"])

lemma framed_step:
  assumes a: "server_address (fst cw) = Some a"
    and f: "framed m ((fst cw)\<lparr>server_address := Some t\<rparr>,
                      (snd cw)\<lparr>sent := sent (snd cw) @ [(a, m)]\<rparr>) cw'"
  shows "framed m cw cw'"
proof -
  from f obtain as where
    "sent (snd cw') = (sent (snd cw) @ [(a, m)]) @ map (\<lambda>a. (a, m)) as"
    unfolding framed_def by auto
  then have "sent (snd cw') = sent (snd cw) @ map (\<lambda>a. (a, m)) (a # as)" by simp
  then have "\<exists>as. sent (snd cw') = sent (snd cw) @ map (\<lambda>a. (a, m)) as \<and> as \<noteq> []"
    by blast
  moreover from f have "ticks (snd cw') = ticks (snd cw)" "draws (snd cw') = draws (snd cw)"
    "data (fst cw') = data (fst cw)" "refresh_policy (fst cw') = refresh_policy (fst cw)"
    "append_retry_attempts (fst cw') = append_retry_attempts (fst cw)"
    "server_address (fst cw') \<noteq> None"
    unfolding framed_def by simp_all
  ultimately show ?thesis unfolding framed_def by blast
qed

lemma framed_redirected:
  "server_address (fst cw) = Some a \<Longrightarrow>
   framed m cw ((fst cw)\<lparr>server_address := Some t\<rparr>,
                (snd cw)\<lparr>sent := sent (snd cw) @ [(a, m)]\<rparr>)"
  unfolding framed_def by (auto intro: exI [of _ "[a]"])

lemma request_within_framed:
  "request_within d e m cw = Some y \<Longrightarrow> framed m cw (snd y)"
proof (induction d arbitrary: cw y rule: less_induct)
  case (less d)
  note IH = less.IH
  note body = less.prems [unfolded request_within.simps [of d e m cw]]
  show ?case
  proof (cases "server_address (fst cw)")
    case None
    with body have "y = (Inl AttributeError, cw)" by simp
    with None show ?thesis unfolding framed_def by (auto intro: exI [of _ "[]"])
  next
    case (Some a)
    note a = this
    have stop: ?thesis
      if "snd y = (fst cw, (snd cw)\<lparr>sent := sent (snd cw) @ [(a, m)]\<rparr>)"
      using that framed_stop [OF a, of m] by simp
    show ?thesis
    proof (cases "transport e (sent (snd cw)) a m")
      case (Inl x)
      with body a show ?thesis by (intro stop) auto
    next
      case (Inr resp)
      note resp = this
      show ?thesis
      proof (cases "is_redirect resp")
        case (Inl x)
        with body a resp show ?thesis by (intro stop) auto
      next
        case (Inr b)
        note b = this
        show ?thesis
        proof (cases b)
          case False
          with body a resp b show ?thesis by (intro stop) auto
        next
          case True
          note t = this
          show ?thesis
          proof (cases "getitem_val resp (KStr ''leader'')")
            case (Inl x)
            with body a resp b t show ?thesis by (intro stop) auto
          next
            case (Inr l)
            note l = this
            show ?thesis
            proof (cases "tuple_of l")
              case (Inl x)
              with body a resp b t l show ?thesis by (intro stop) auto
            next
              case (Inr tt)
              note tt = this
              show ?thesis
              proof (cases d)
                case 0
                with body a resp b t l tt
                have "snd y = ((fst cw)\<lparr>server_address := Some tt\<rparr>,
                               (snd cw)\<lparr>sent := sent (snd cw) @ [(a, m)]\<rparr>)"
                  by auto
                with framed_redirected [OF a, of m tt] show ?thesis by simp
              next
                case (Suc d')
                with body a resp b t l tt
                have "request_within d' e m ((fst cw)\<lparr>server_address := Some tt\<rparr>,
                       (snd cw)\<lparr>sent := sent (snd cw) @ [(a, m)]\<rparr>) = Some y"
                  by simp
                from IH [OF _ this] Suc show ?thesis by (intro framed_step [OF a]) simp_all
              qed
            qed
          qed
        qed
      qed
    qed
  qed
qed

lemma request_framed:
  "request e m cw = Some y \<Longrightarrow> framed m cw (snd y)"
  unfolding request_def by (rule request_within_framed)

lemma framed_trans:
  assumes "framed m cw cw1" and "framed m cw1 cw2"
  shows "framed m cw cw2"
proof -
  from assms(1) obtain as where as:
    "sent (snd cw1) = sent (snd cw) @ map (\<lambda>a. (a, m)) as"
    "server_address (fst cw) \<noteq> None \<longrightarrow> as \<noteq> []"
    unfolding framed_def by blast
  from assms(2) obtain bs where bs:
    "sent (snd cw2) = sent (snd cw1) @ map (\<lambda>a. (a, m)) bs"
    unfolding framed_def by blast
  from as bs have "sent (snd cw2) = sent (snd cw) @ map (\<lambda>a. (a, m)) (as @ bs)"
    "server_address (fst cw) \<noteq> None \<longrightarrow> as @ bs \<noteq> []"
    by simp_all
  then have "\<exists>cs. sent (snd cw2) = sent (snd cw) @ map (\<lambda>a. (a, m)) cs \<and>
    (server_address (fst cw) \<noteq> None \<longrightarrow> cs \<noteq> [])"
    by blast
  moreover from assms have "ticks (snd cw2) = ticks (snd cw)" "draws (snd cw2) = draws (snd cw)"
    "data (fst cw2) = data (fst cw)" "refresh_policy (fst cw2) = refresh_policy (fst cw)"
    "append_retry_attempts (fst cw2) = append_retry_attempts (fst cw)"
    "server_address (fst cw) \<noteq> None \<longrightarrow> server_address (fst cw2) \<noteq> None"
    unfolding framed_def by simp_all
  ultimately show ?thesis unfolding framed_def by blast
qed

lemma retry_loop_framed:
  "retry_loop e p j prev cw = Some y \<Longrightarrow>
   (j = 0 \<longrightarrow> snd y = cw) \<and> (1 \<le> j \<longrightarrow> framed (append_msg p) cw (snd y))"
proof (induction j arbitrary: prev cw y)
  case 0
  then show ?case by (auto split: option.splits)
next
  case (Suc j)
  from Suc.prems obtain r cw1 where first: "append_log e p cw = Some (r, cw1)"
    by (auto split: option.splits)
  then have f1: "framed (append_msg p) cw cw1"
    unfolding append_log_def using request_framed by fastforce
  show ?case
  proof (cases "snd y = cw1")
    case True
    with f1 show ?thesis by simp
  next
    case False
    with Suc.prems first obtain resp where
      rest: "retry_loop e p j (Some resp) cw1 = Some y"
      by (auto split: sum.splits if_splits)
    from Suc.IH [OF rest] f1 have "framed (append_msg p) cw (snd y)"
      by (cases j) (auto intro: framed_trans)
    then show ?thesis by simp
  qed
qed

lemma get_state_framed:
  assumes "get_state e (c, w) = Some (r, c1, w1)"
  shows "(\<exists>as. sent w1 = sent w @ map (\<lambda>a. (a, get_msg)) as) \<and>
         ticks w1 = ticks w \<and> data c1 = data c \<and> refresh_policy c1 = refresh_policy c \<and>
         append_retry_attempts c1 = append_retry_attempts c \<and>
         (\<not> isl r \<longrightarrow> server_address c1 \<noteq> None)"
proof (cases "getitem_val (data c) (KStr ''cluster'')")
  case (Inl x)
  with assms have "r = Inl x" "c1 = c" "w1 = w" by simp_all
  then show ?thesis by (auto intro: exI [of _ "[]"])
next
  case (Inr members)
  note members = this
  show ?thesis
  proof (cases "choice (randbelow e (draws w)) members")
    case (Inl x)
    with assms members have "r = Inl x" "c1 = c" "w1 = w" by simp_all
    then show ?thesis by (auto intro: exI [of _ "[]"])
  next
    case (Inr member)
    note member = this
    show ?thesis
    proof (cases "tuple_of member")
      case (Inl x)
      with assms members member have "r = Inl x" "c1 = c" "w1 = w\<lparr>draws := draws w + 1\<rparr>"
        by simp_all
      then show ?thesis by (auto intro: exI [of _ "[]"])
    next
      case (Inr t)
      with assms members member
      have "request e get_msg (c\<lparr>server_address := Some t\<rparr>, w\<lparr>draws := draws w + 1\<rparr>) =
              Some (r, c1, w1)"
        by simp
      from request_framed [OF this] show ?thesis
        unfolding framed_def by auto
    qed
  qed
qed

lemma can_update_sent: "sent (snd (snd (can_update e p w))) = sent w"
  by (cases "(e, p, w)" rule: can_update.cases) simp_all

lemma getitem_without_refresh:
  assumes "fst (can_update e (refresh_policy c) w) = False"
  shows "getitem e k (c, w) =
     Some (getitem_val (data c) k, c\<lparr>refresh_policy := fst (snd (can_update e (refresh_policy c) w))\<rparr>,
           snd (snd (can_update e (refresh_policy c) w)))"
proof -
  obtain b p' w' where cu: "can_update e (refresh_policy c) w = (b, p', w')"
    by (cases "can_update e (refresh_policy c) w")
  with assms have "b = False" by simp
  with cu show ?thesis unfolding getitem_def by simp
qed

lemma lookup_remove: "lookup (remove m k) k = None"
  by (induction m) (auto simp: remove_def)

subsection \<open>The dictionary operations\<close>

lemma fetch_of_get_state:
  "get_state e cw = Some (Inr s, c1, w1) \<Longrightarrow> fetch e cw = Some (Inr (), c1\<lparr>data := s\<rparr>, w1)"
  by (simp add: fetch_def)

lemma forced_refresh_of_get_state:
  "get_state e (c, w) = Some (Inr s, c1, w1) \<Longrightarrow>
   refresh e True (c, w) = Some (Inr (), c1\<lparr>data := s\<rparr>, w1)"
  using fetch_of_get_state [of e "(c, w)" s c1 w1] by simp

text \<open>
  C9. Whenever \<open>__setitem__\<close> comes back, with a value or with an exception, the local
  dictionary and the policy object are what they were before the call; everything sent
  during the call is the append message for this key and value, and at least one such
  message was sent when at least one attempt is configured and a contact is set. A
  following \<open>__getitem__\<close> for any key, under a policy whose \<open>can_update\<close> answers False,
  sends nothing and yields exactly what the dictionary held before the write: the cached
  value, or KeyError when the key is not in it.
\<close>

theorem setitem_leaves_mirror:
  assumes "setitem e k v (c, w) = Some (r, c', w')"
  shows "data c' = data c \<and> refresh_policy c' = refresh_policy c \<and>
         (\<exists>as. sent w' = sent w @ map (\<lambda>a. (a, append_msg (change_payload k v))) as \<and>
               (1 \<le> append_retry_attempts c \<and> server_address c \<noteq> None \<longrightarrow> as \<noteq> [])) \<and>
         (fst (can_update e (refresh_policy c') w') = False \<longrightarrow>
            getitem e k' (c', w') =
              Some (getitem_val (data c) k',
                    c'\<lparr>refresh_policy := fst (snd (can_update e (refresh_policy c') w'))\<rparr>,
                    snd (snd (can_update e (refresh_policy c') w'))) \<and>
            sent (snd (snd (can_update e (refresh_policy c') w'))) = sent w')"
proof -
  let ?p = "change_payload k v"
  from assms obtain r' where
    loop: "retry_loop e ?p (nat (append_retry_attempts c)) None (c, w) = Some (r', c', w')"
    unfolding setitem_def by (auto split: option.splits sum.splits)
  note fr = retry_loop_framed [OF loop]
  have frame: "data c' = data c \<and> refresh_policy c' = refresh_policy c \<and>
     (\<exists>as. sent w' = sent w @ map (\<lambda>a. (a, append_msg ?p)) as \<and>
           (1 \<le> append_retry_attempts c \<and> server_address c \<noteq> None \<longrightarrow> as \<noteq> []))"
  proof (cases "nat (append_retry_attempts c)")
    case 0
    with fr have "c' = c" "w' = w" by simp_all
    moreover from 0 have "\<not> 1 \<le> append_retry_attempts c" by simp
    ultimately show ?thesis by (auto intro: exI [of _ "[]"])
  next
    case (Suc j)
    with fr have "framed (append_msg ?p) (c, w) (c', w')" by simp
    then show ?thesis unfolding framed_def by auto
  qed
  then have d: "data c' = data c" by simp
  have "getitem e k' (c', w') =
     Some (getitem_val (data c) k',
           c'\<lparr>refresh_policy := fst (snd (can_update e (refresh_policy c') w'))\<rparr>,
           snd (snd (can_update e (refresh_policy c') w')))"
    if "fst (can_update e (refresh_policy c') w') = False"
    using getitem_without_refresh [OF that, of k'] d by simp
  with frame can_update_sent [of e "refresh_policy c'" w'] show ?thesis by simp
qed

text \<open>
  C10. When the forced refresh of \<open>__delitem__\<close> fetches a snapshot, a dictionary, that does
  not hold the key, \<open>__delitem__\<close> raises KeyError at \<open>del self.data[key]\<close>; the local
  dictionary is then the snapshot just fetched, and every message sent during the call
  is the get message of the refresh: no append message leaves the client.
\<close>

theorem delitem_absent_key:
  assumes "get_state e (c, w) = Some (Inr (VMap m), c1, w1)"
    and "lookup m k = None"
  shows "delitem e k (c, w) = Some (Inl KeyError, c1\<lparr>data := VMap m\<rparr>, w1) \<and>
         (\<exists>as. sent w1 = sent w @ map (\<lambda>a. (a, get_msg)) as) \<and>
         (\<forall>a p. (a, append_msg p) \<notin> set (drop (length (sent w)) (sent w1)))"
proof -
  from forced_refresh_of_get_state [OF assms(1)] assms(2)
  have "delitem e k (c, w) = Some (Inl KeyError, c1\<lparr>data := VMap m\<rparr>, w1)"
    unfolding delitem_def by simp
  moreover from get_state_framed [OF assms(1)] obtain as where
    as: "sent w1 = sent w @ map (\<lambda>a. (a, get_msg)) as"
    by blast
  moreover from as have "(a, append_msg p) \<notin> set (drop (length (sent w)) (sent w1))" for a p
    by (auto simp: get_msg_def append_msg_def)
  ultimately show ?thesis by blast
qed

text \<open>
  C8, as the code has it. The key has to be in the snapshot that the forced refresh
  fetches; whether it was in the local dictionary before the call does not matter. Then
  \<open>__delitem__\<close> first sends the get messages of the refresh, removes the key from the
  fetched dictionary, and then sends the append messages with the delete payload through
  the retry loop (at least one when an attempt is configured). Whatever that loop
  delivers, a response with or without success or an exception, the key is gone from
  the local dictionary, and a \<open>__getitem__\<close> for it under a policy whose \<open>can_update\<close>
  answers False sends nothing and raises KeyError.
\<close>

theorem delitem_optimistic:
  assumes "get_state e (c, w) = Some (Inr (VMap m), c1, w1)"
    and "lookup m k = Some v"
    and "append_log_retry e (delete_payload k) (c1\<lparr>data := VMap (remove m k)\<rparr>, w1) =
           Some (r, c2, w2)"
  shows "delitem e k (c, w) = Some (map_sum id (\<lambda>response. ()) r, c2, w2) \<and>
         data c2 = VMap (remove m k) \<and>
         getitem_val (data c2) k = Inl KeyError \<and>
         (\<exists>as. sent w1 = sent w @ map (\<lambda>a. (a, get_msg)) as) \<and>
         (\<exists>bs. sent w2 = sent w1 @ map (\<lambda>a. (a, append_msg (delete_payload k))) bs \<and>
               (1 \<le> append_retry_attempts c \<longrightarrow> bs \<noteq> [])) \<and>
         (fst (can_update e (refresh_policy c2) w2) = False \<longrightarrow>
            getitem e k (c2, w2) =
              Some (Inl KeyError,
                    c2\<lparr>refresh_policy := fst (snd (can_update e (refresh_policy c2) w2))\<rparr>,
                    snd (snd (can_update e (refresh_policy c2) w2))) \<and>
            sent (snd (snd (can_update e (refresh_policy c2) w2))) = sent w2)"
proof -
  let ?c = "c1\<lparr>data := VMap (remove m k)\<rparr>"
  let ?p = "delete_payload k"
  have del: "delitem e k (c, w) = Some (map_sum id (\<lambda>response. ()) r, c2, w2)"
    using forced_refresh_of_get_state [OF assms(1)] assms(2,3)
    unfolding delitem_def by (cases r) simp_all
  note gs = get_state_framed [OF assms(1)]
  from assms(3) have loop:
    "retry_loop e ?p (nat (append_retry_attempts ?c)) None (?c, w1) = Some (r, c2, w2)"
    by simp
  note fr = retry_loop_framed [OF loop]
  have sa: "server_address ?c \<noteq> None" using gs by simp
  have att: "append_retry_attempts ?c = append_retry_attempts c" using gs by simp
  have frame: "data c2 = VMap (remove m k) \<and>
     (\<exists>bs. sent w2 = sent w1 @ map (\<lambda>a. (a, append_msg ?p)) bs \<and>
           (1 \<le> append_retry_attempts c \<longrightarrow> bs \<noteq> []))"
  proof (cases "nat (append_retry_attempts ?c)")
    case 0
    with fr have "c2 = ?c" "w2 = w1" by simp_all
    moreover from 0 att have "\<not> 1 \<le> append_retry_attempts c" by simp
    ultimately show ?thesis by (auto intro: exI [of _ "[]"])
  next
    case (Suc j)
    with fr have "framed (append_msg ?p) (?c, w1) (c2, w2)" by simp
    with sa show ?thesis unfolding framed_def by auto
  qed
  then have d: "data c2 = VMap (remove m k)" by simp
  then have gone: "getitem_val (data c2) k = Inl KeyError" by (simp add: lookup_remove)
  have "getitem e k (c2, w2) =
     Some (Inl KeyError,
           c2\<lparr>refresh_policy := fst (snd (can_update e (refresh_policy c2) w2))\<rparr>,
           snd (snd (can_update e (refresh_policy c2) w2)))"
    if "fst (can_update e (refresh_policy c2) w2) = False"
    using getitem_without_refresh [OF that, of k] gone by simp
  with del frame gone gs can_update_sent [of e "refresh_policy c2" w2] show ?thesis
    by simp
qed

lemma store_env_get:
  "server_address c = Some a \<Longrightarrow>
   request store_env get_msg (c, w) = Some (Inr snapshotB, c, w\<lparr>sent := sent w @ [(a, get_msg)]\<rparr>)"
  by (rule request_answer) (simp_all add: store_env_def snapshotB_def key_eq_def)

lemma store_env_append:
  "server_address c = Some a \<Longrightarrow>
   append_log store_env p (c, w) =
     Some (Inr accepted, c, w\<lparr>sent := sent w @ [(a, append_msg p)]\<rparr>)"
  unfolding append_log_def
  by (rule request_answer)
     (simp_all add: store_env_def accepted_def key_eq_def get_msg_def append_msg_def)

lemma mirror_env_get:
  "server_address c = Some a \<Longrightarrow>
   request mirror_env get_msg (c, w) = Some (Inr snapshotA, c, w\<lparr>sent := sent w @ [(a, get_msg)]\<rparr>)"
  by (rule request_answer) (simp_all add: mirror_env_def snapshotA_def key_eq_def)

lemma mirror_env_append:
  "server_address c = Some a \<Longrightarrow>
   append_log mirror_env p (c, w) =
     Some (Inr refused, c, w\<lparr>sent := sent w @ [(a, append_msg p)]\<rparr>)"
  unfolding append_log_def
  by (rule request_answer)
     (simp_all add: mirror_env_def refused_def key_eq_def get_msg_def append_msg_def)

lemma three_attempts: "nat 3 = Suc (Suc (Suc 0))"
  by simp

lemma retry_loop_3:
  "retry_loop e p 3 prev cw = retry_loop e p (Suc (Suc (Suc 0))) prev cw"
  by (simp only: numeral_3_eq_3)

lemma locked_client_simps:
  "server_address (locked_client d) = Some addrA"
  "data (locked_client d) = d"
  "append_retry_attempts (locked_client d) = 3"
  "refresh_policy (locked_client d) = RefreshPolicyLock False"
  "(locked_client d)\<lparr>data := d'\<rparr> = locked_client d'"
  "(locked_client d)\<lparr>server_address := Some addrA\<rparr> = locked_client d"
  "(locked_client d)\<lparr>refresh_policy := RefreshPolicyLock False\<rparr> = locked_client d"
  by (simp_all add: locked_client_def)

lemma store_env_get_state:
  "get_state store_env (locked_client snapshotA, world0) =
     Some (Inr snapshotB, locked_client snapshotA,
           world0\<lparr>sent := [(addrA, get_msg)], draws := 1\<rparr>)"
proof -
  have "get_state store_env (locked_client snapshotA, world0) =
    request store_env get_msg
      ((locked_client snapshotA)\<lparr>server_address := Some addrA\<rparr>, world0\<lparr>draws := draws world0 + 1\<rparr>)"
    by (simp add: locked_client_def snapshotA_def key_eq_def)
  also have "\<dots> = Some (Inr snapshotB, locked_client snapshotA,
           world0\<lparr>sent := [(addrA, get_msg)], draws := 1\<rparr>)"
    by (subst store_env_get [of _ addrA]) (simp_all add: locked_client_simps world0_def)
  finally show ?thesis .
qed

lemma mirror_env_get_state:
  "get_state mirror_env (locked_client snapshotA, world0) =
     Some (Inr snapshotA, locked_client snapshotA,
           world0\<lparr>sent := [(addrA, get_msg)], draws := 1\<rparr>)"
proof -
  have "get_state mirror_env (locked_client snapshotA, world0) =
    request mirror_env get_msg
      ((locked_client snapshotA)\<lparr>server_address := Some addrA\<rparr>, world0\<lparr>draws := draws world0 + 1\<rparr>)"
    by (simp add: locked_client_def snapshotA_def key_eq_def)
  also have "\<dots> = Some (Inr snapshotA, locked_client snapshotA,
           world0\<lparr>sent := [(addrA, get_msg)], draws := 1\<rparr>)"
    by (subst mirror_env_get [of _ addrA]) (simp_all add: locked_client_simps world0_def)
  finally show ?thesis .
qed

theorem setitem_leaves_mirror_witness:
  "setitem store_env (KStr ''x'') (VInt 5) (locked_client snapshotB, world0) =
     Some (Inr (), locked_client snapshotB,
           world0\<lparr>sent := [(addrA, append_msg (change_payload (KStr ''x'') (VInt 5)))]\<rparr>) \<and>
   getitem_val (data (locked_client snapshotB)) (KStr ''x'') = Inr (VInt 1) \<and>
   fst (can_update store_env (RefreshPolicyLock False)
          (world0\<lparr>sent := [(addrA, append_msg (change_payload (KStr ''x'') (VInt 5)))]\<rparr>)) = False \<and>
   getitem store_env (KStr ''x'')
     (locked_client snapshotB,
      world0\<lparr>sent := [(addrA, append_msg (change_payload (KStr ''x'') (VInt 5)))]\<rparr>) =
     Some (Inr (VInt 1), locked_client snapshotB,
           world0\<lparr>sent := [(addrA, append_msg (change_payload (KStr ''x'') (VInt 5)))]\<rparr>)"
proof -
  let ?w = "world0\<lparr>sent := [(addrA, append_msg (change_payload (KStr ''x'') (VInt 5)))]\<rparr>"
  have h: "setitem store_env (KStr ''x'') (VInt 5) (locked_client snapshotB, world0) =
     Some (Inr (), locked_client snapshotB, ?w)"
    unfolding setitem_def
    by (simp add: locked_client_simps retry_loop_3 store_env_append accepted_def key_eq_def
          world0_def)
  have x: "getitem_val (data (locked_client snapshotB)) (KStr ''x'') = Inr (VInt 1)"
    by (simp add: locked_client_simps snapshotB_def key_eq_def)
  from setitem_leaves_mirror [OF h, of "KStr ''x''"] h x show ?thesis
    by (simp add: locked_client_simps)
qed

theorem delitem_absent_key_witness:
  "get_state store_env (locked_client snapshotA, world0) =
     Some (Inr snapshotB, locked_client snapshotA,
           world0\<lparr>sent := [(addrA, get_msg)], draws := 1\<rparr>) \<and>
   getitem_val snapshotB (KStr ''a'') = Inl KeyError \<and>
   delitem store_env (KStr ''a'') (locked_client snapshotA, world0) =
     Some (Inl KeyError, locked_client snapshotB,
           world0\<lparr>sent := [(addrA, get_msg)], draws := 1\<rparr>)"
proof -
  have g: "get_state store_env (locked_client snapshotA, world0) =
     Some (Inr (VMap [(KStr ''cluster'', VList [VList addrA, VList addrB]), (KStr ''x'', VInt 1)]),
           locked_client snapshotA, world0\<lparr>sent := [(addrA, get_msg)], draws := 1\<rparr>)"
    using store_env_get_state by (simp add: snapshotB_def)
  have a: "lookup [(KStr ''cluster'', VList [VList addrA, VList addrB]), (KStr ''x'', VInt 1)]
             (KStr ''a'') = None"
    by (simp add: key_eq_def)
  from delitem_absent_key [OF g a] store_env_get_state a show ?thesis
    by (simp add: locked_client_simps snapshotB_def)
qed

text \<open>
  C8, as the specification states it (for every key present in the local mirror), fails:
  the local dictionary holds \<open>'a'\<close>, the snapshot fetched by the forced refresh does not, and
  \<open>__delitem__\<close> raises KeyError after the get message, without sending any append.
\<close>

theorem delitem_present_in_mirror_absent_in_snapshot:
  "getitem_val (data (locked_client snapshotA)) (KStr ''a'') = Inr (VInt 1) \<and>
   delitem store_env (KStr ''a'') (locked_client snapshotA, world0) =
     Some (Inl KeyError, locked_client snapshotB,
           world0\<lparr>sent := [(addrA, get_msg)], draws := 1\<rparr>)"
proof -
  have "refresh store_env True (locked_client snapshotA, world0) =
     Some (Inr (), locked_client snapshotB, world0\<lparr>sent := [(addrA, get_msg)], draws := 1\<rparr>)"
    using forced_refresh_of_get_state [OF store_env_get_state]
    by (simp add: locked_client_simps)
  then show ?thesis
    unfolding delitem_def
    by (simp add: locked_client_simps snapshotA_def snapshotB_def key_eq_def)
qed

lemma mirror_env_delete_retry:
  "append_log_retry mirror_env p (locked_client d, w) =
     Some (Inr refused, locked_client d,
           w\<lparr>sent := sent w @ [(addrA, append_msg p), (addrA, append_msg p), (addrA, append_msg p)]\<rparr>)"
  by (simp add: locked_client_simps retry_loop_3 mirror_env_append refused_def key_eq_def)

theorem delitem_optimistic_witness:
  "get_state mirror_env (locked_client snapshotA, world0) =
     Some (Inr snapshotA, locked_client snapshotA,
           world0\<lparr>sent := [(addrA, get_msg)], draws := 1\<rparr>) \<and>
   getitem_val snapshotA (KStr ''a'') = Inr (VInt 1) \<and>
   getitem_val refused (KStr ''success'') = Inr (VBool False) \<and>
   delitem mirror_env (KStr ''a'') (locked_client snapshotA, world0) =
     Some (Inr (), locked_client (VMap [(KStr ''cluster'', VList [VList addrA])]),
           world0\<lparr>sent := [(addrA, get_msg),
                             (addrA, append_msg (delete_payload (KStr ''a''))),
                             (addrA, append_msg (delete_payload (KStr ''a''))),
                             (addrA, append_msg (delete_payload (KStr ''a'')))],
                    draws := 1\<rparr>) \<and>
   getitem mirror_env (KStr ''a'')
     (locked_client (VMap [(KStr ''cluster'', VList [VList addrA])]),
      world0\<lparr>sent := [(addrA, get_msg),
                        (addrA, append_msg (delete_payload (KStr ''a''))),
                        (addrA, append_msg (delete_payload (KStr ''a''))),
                        (addrA, append_msg (delete_payload (KStr ''a'')))],
               draws := 1\<rparr>) =
     Some (Inl KeyError, locked_client (VMap [(KStr ''cluster'', VList [VList addrA])]),
           world0\<lparr>sent := [(addrA, get_msg),
                             (addrA, append_msg (delete_payload (KStr ''a''))),
                             (addrA, append_msg (delete_payload (KStr ''a''))),
                             (addrA, append_msg (delete_payload (KStr ''a'')))],
                    draws := 1\<rparr>)"
proof -
  let ?m = "[(KStr ''cluster'', VList [VList addrA]), (KStr ''a'', VInt 1)]"
  let ?wg = "world0\<lparr>sent := [(addrA, get_msg)], draws := 1\<rparr>"
  let ?p = "delete_payload (KStr ''a'')"
  let ?w2 = "?wg\<lparr>sent := sent ?wg @ [(addrA, append_msg ?p), (addrA, append_msg ?p),
                                       (addrA, append_msg ?p)]\<rparr>"
  let ?W = "world0\<lparr>sent := [(addrA, get_msg), (addrA, append_msg ?p), (addrA, append_msg ?p),
                             (addrA, append_msg ?p)], draws := 1\<rparr>"
  let ?c2 = "locked_client (VMap [(KStr ''cluster'', VList [VList addrA])])"
  have g: "get_state mirror_env (locked_client snapshotA, world0) =
     Some (Inr (VMap ?m), locked_client snapshotA, ?wg)"
    using mirror_env_get_state by (simp only: snapshotA_def)
  have l: "lookup ?m (KStr ''a'') = Some (VInt 1)" by (simp add: key_eq_def)
  have r: "remove ?m (KStr ''a'') = [(KStr ''cluster'', VList [VList addrA])]"
    by (simp add: remove_def key_eq_def)
  have w: "?w2 = ?W" by (simp add: world0_def)
  have ap: "append_log_retry mirror_env ?p
              ((locked_client snapshotA)\<lparr>data := VMap (remove ?m (KStr ''a''))\<rparr>, ?wg) =
            Some (Inr refused, ?c2, ?W)"
    unfolding locked_client_simps r w [symmetric] by (rule mirror_env_delete_retry)
  have cu: "can_update mirror_env (refresh_policy ?c2) ?W = (False, RefreshPolicyLock False, ?W)"
    by (simp add: locked_client_simps)
  note concl = delitem_optimistic [OF g l ap]
  have c2: "getitem_val snapshotA (KStr ''a'') = Inr (VInt 1)"
    by (simp add: snapshotA_def key_eq_def)
  have c3: "getitem_val refused (KStr ''success'') = Inr (VBool False)"
    by (simp add: refused_def key_eq_def)
  from concl [THEN conjunct1] have c4: "delitem mirror_env (KStr ''a'') (locked_client snapshotA, world0) =
     Some (Inr (), ?c2, ?W)"
    by simp
  from concl [THEN conjunct2, THEN conjunct2, THEN conjunct2, THEN conjunct2, THEN conjunct2] cu
  have c5: "getitem mirror_env (KStr ''a'') (?c2, ?W) = Some (Inl KeyError, ?c2, ?W)"
    by (simp add: locked_client_simps)
  from mirror_env_get_state c2 c3 c4 c5 show ?thesis by (intro conjI)
qed




end
